theory Spec2Isabelle
  imports Main "HOL-Library.Sublist"
begin

section \<open>File trees\<close>

text \<open>
  A file tree is a JavaScript object whose property names are paths and whose values are
  entry objects. The scanner writes \<^verbatim>\<open>obj.type = 'dir'\<close> or \<^verbatim>\<open>obj.type = 'file'\<close>
  and, for files only, \<^verbatim>\<open>files[key].hash = checksum\<close>; a missing \<^verbatim>\<open>hash\<close> reads as
  \<^verbatim>\<open>undefined\<close>, here \<open>None\<close>. Property order is insertion order, so an object is
  an association list. Objects are shared by reference, so they live in a store.
\<close>

datatype kind = File | Directory

record entry =
  type :: kind
  hash :: "string option"

type_synonym filetree = "(string \<times> entry) list"

type_synonym ref = nat

type_synonym heap = "ref \<Rightarrow> filetree"

definition hasOwnProperty :: "filetree \<Rightarrow> string \<Rightarrow> bool" where
  "hasOwnProperty obj key = (map_of obj key \<noteq> None)"

definition delete_key :: "string \<Rightarrow> filetree \<Rightarrow> filetree" where
  "delete_key key obj = filter (\<lambda>p. fst p \<noteq> key) obj"

text \<open>
  One round of the \<^verbatim>\<open>for (var key in dst)\<close> loop of \<^verbatim>\<open>_filterFiles\<close>. Both objects
  are read through the store at the time of the round, so the model also covers a call
  whose two arguments are the same object.
\<close>

definition filterStep :: "ref \<Rightarrow> ref \<Rightarrow> string \<Rightarrow> heap \<Rightarrow> heap" where
  "filterStep dst src key h =
     (if hasOwnProperty (h dst) key then
        (case map_of (h dst) key of
           None \<Rightarrow> h
         | Some d \<Rightarrow>
             if type d = Directory then h(dst := delete_key key (h dst))
             else if hasOwnProperty (h dst) key \<and> hasOwnProperty (h src) key then
               (case map_of (h src) key of
                  None \<Rightarrow> h
                | Some s \<Rightarrow>
                    if hash d = hash s then h(dst := delete_key key (h dst)) else h)
             else h)
      else h)"

text \<open>
  \<^verbatim>\<open>_filterFiles(dst, src)\<close>: the loop visits the property names \<^verbatim>\<open>dst\<close> has when it
  starts. The function has no \<^verbatim>\<open>return\<close>; its whole effect is the new store.
\<close>

definition filterFiles :: "heap \<Rightarrow> ref \<Rightarrow> ref \<Rightarrow> heap" where
  "filterFiles h dst src = fold (filterStep dst src) (map fst (h dst)) h"

section \<open>The differ\<close>

definition removed :: "filetree \<Rightarrow> filetree \<Rightarrow> string \<Rightarrow> bool" where
  "removed d0 s0 key =
     (case map_of d0 key of
        None \<Rightarrow> False
      | Some d \<Rightarrow> type d = Directory \<or>
          (case map_of s0 key of None \<Rightarrow> False | Some s \<Rightarrow> hash d = hash s))"

section \<open>The upload scope filter\<close>

text \<open>
  \<^verbatim>\<open>String.prototype.indexOf\<close>: the index of the first occurrence, or \<open>-1\<close>.
\<close>

fun indexOf :: "string \<Rightarrow> string \<Rightarrow> int" where
  "indexOf [] pat = (if pat = [] then 0 else - 1)"
| "indexOf (c # cs) pat =
     (if prefix pat (c # cs) then 0
      else (let i = indexOf cs pat in if i < 0 then - 1 else i + 1))"

text \<open>
  The test of the regular expression \<^verbatim>\<open>/^\/(www\/|merges\/|plugins\/|[^/]*$)/\<close>: a
  leading slash, followed by one of the three directory names with its slash, or by a
  rest without any slash up to the end of the string.
\<close>

definition scopeTest :: "string \<Rightarrow> bool" where
  "scopeTest fn =
     (case fn of
        [] \<Rightarrow> False
      | c # rest \<Rightarrow> c = CHR ''/'' \<and>
          (prefix ''www/'' rest \<or> prefix ''merges/'' rest \<or> prefix ''plugins/'' rest \<or>
           CHR ''/'' \<notin> set rest))"

definition fileFilter :: "string \<Rightarrow> bool" where
  "fileFilter fn = (if indexOf fn ''/.'' \<ge> 0 then False else scopeTest fn)"

text \<open>
  The keys \<^verbatim>\<open>uploadProject\<close> starts a transfer for: it filters \<^verbatim>\<open>localFiles\<close>
  against \<^verbatim>\<open>remoteFiles\<close> and then takes
  \<^verbatim>\<open>Object.keys(localFiles).filter(fileFilter)\<close>.
\<close>

definition uploadKeys :: "heap \<Rightarrow> ref \<Rightarrow> ref \<Rightarrow> string list" where
  "uploadKeys h localFiles remoteFiles =
     filter fileFilter (map fst (filterFiles h localFiles remoteFiles localFiles))"

text \<open>
  The words of the specification, to compare the filter with: the segments of a path are
  the pieces between its slashes, a hidden segment begins with a dot, and a top-level
  file is a slash followed by a name without slashes.
\<close>

fun segments :: "string \<Rightarrow> string list" where
  "segments [] = [[]]"
| "segments (c # cs) =
     (if c = CHR ''/'' then [] # segments cs
      else (case segments cs of [] \<Rightarrow> [[c]] | seg # segs \<Rightarrow> (c # seg) # segs))"

definition hiddenSegment :: "string \<Rightarrow> bool" where
  "hiddenSegment fn = list_ex (prefix ''.'') (segments fn)"

definition topLevel :: "string \<Rightarrow> bool" where
  "topLevel fn = (case fn of [] \<Rightarrow> False | c # name \<Rightarrow> c = CHR ''/'' \<and> CHR ''/'' \<notin> set name)"

section \<open>Deferreds\<close>

text \<open>
  A deferred of the promise library settles once: \<^verbatim>\<open>resolve\<close>, \<^verbatim>\<open>reject\<close> and
  \<^verbatim>\<open>notify\<close> on a settled deferred do nothing. The progress listeners of a pending
  deferred receive every notification, in order.
\<close>

datatype ('a, 'e) outcome = Pending | Resolved 'a | Rejected 'e

record ('a, 'e, 'p) deferred_state =
  state :: "('a, 'e) outcome"
  progress :: "'p list"

definition resolve :: "'a \<Rightarrow> ('a, 'e, 'p) deferred_state \<Rightarrow> ('a, 'e, 'p) deferred_state" where
  "resolve v d = (if state d = Pending then d\<lparr>state := Resolved v\<rparr> else d)"

definition reject :: "'e \<Rightarrow> ('a, 'e, 'p) deferred_state \<Rightarrow> ('a, 'e, 'p) deferred_state" where
  "reject e d = (if state d = Pending then d\<lparr>state := Rejected e\<rparr> else d)"

definition notify :: "'p \<Rightarrow> ('a, 'e, 'p) deferred_state \<Rightarrow> ('a, 'e, 'p) deferred_state" where
  "notify p d = (if state d = Pending then d\<lparr>progress := progress d @ [p]\<rparr> else d)"

definition isResolved :: "('a, 'e) outcome \<Rightarrow> bool" where
  "isResolved out = (case out of Resolved _ \<Rightarrow> True | _ \<Rightarrow> False)"

section \<open>Transfer batches\<close>

text \<open>
  The state of the batch that \<^verbatim>\<open>uploadProject\<close> and \<^verbatim>\<open>downloadProject\<close> run:
  \<^verbatim>\<open>totalLength\<close>, the shared counter \<^verbatim>\<open>currentIndex\<close>, the array \<^verbatim>\<open>defers\<close> whose
  promises go to \<^verbatim>\<open>Q.all\<close>, and the deferred of the operation. \<^verbatim>\<open>Q.all(promises)\<close>
  is resolved when every promise is, and rejected with the reason of the first promise
  that is rejected; its two handlers pass that on to the deferred of the operation.
\<close>

record progress_event =
  path :: string
  total :: nat
  index :: nat

record batch =
  totalLength :: nat
  currentIndex :: nat
  defers :: "(unit, string) outcome list"
  deferred :: "(string, string, progress_event) deferred_state"

text \<open>
  The end of the transfer of one task, named by its key: the promise of \<^verbatim>\<open>uploadFile\<close>
  or \<^verbatim>\<open>downloadFile\<close> is resolved, or it is rejected with an error.
\<close>

datatype completion = Succeeded string | Failed string string

definition task :: "completion \<Rightarrow> string" where
  "task c = (case c of Succeeded key \<Rightarrow> key | Failed key error \<Rightarrow> key)"

definition startBatch :: "string \<Rightarrow> string list \<Rightarrow> batch" where
  "startBatch projectId keys =
     (let b = \<lparr>totalLength = length keys, currentIndex = 0,
                defers = replicate (length keys) Pending,
                deferred = \<lparr>state = Pending, progress = []\<rparr>\<rparr>
      in if list_all isResolved (defers b)
         then b\<lparr>deferred := resolve projectId (deferred b)\<rparr> else b)"

text \<open>
  \<^verbatim>\<open>defers[currentIndex].resolve()\<close> and \<^verbatim>\<open>defers[currentIndex].reject(error)\<close>,
  with what \<^verbatim>\<open>Q.all\<close> makes of it. An index beyond the array makes the handler throw,
  which changes nothing here.
\<close>

definition settle :: "string \<Rightarrow> (unit, string) outcome \<Rightarrow> batch \<Rightarrow> batch" where
  "settle projectId out b =
     (let i = currentIndex b in
      if i < length (defers b) \<and> defers b ! i = Pending then
        (let ds = (defers b)[i := out] in
         b\<lparr>defers := ds,
           deferred :=
             (case out of
                Rejected error \<Rightarrow> reject error (deferred b)
              | _ \<Rightarrow> if list_all isResolved ds then resolve projectId (deferred b)
                     else deferred b)\<rparr>)
      else b)"

text \<open>
  The handlers attached to the transfer of one task, run as one step: the success
  handler notifies and resolves, the failure handler rejects, and \<^verbatim>\<open>finally\<close>
  increments the counter. The success handler receives the value the transfer was
  resolved with, \<open>resolvesWith key\<close> for the task of \<open>key\<close>.
\<close>

definition complete :: "string \<Rightarrow> (string \<Rightarrow> string) \<Rightarrow> batch \<Rightarrow> completion \<Rightarrow> batch" where
  "complete projectId resolvesWith b c =
     (let b1 = (case c of
                  Succeeded key \<Rightarrow>
                    settle projectId (Resolved ())
                      (b\<lparr>deferred := notify \<lparr>path = resolvesWith key, total = totalLength b,
                                             index = currentIndex b\<rparr> (deferred b)\<rparr>)
                | Failed key error \<Rightarrow> settle projectId (Rejected error) b)
      in b1\<lparr>currentIndex := currentIndex b1 + 1\<rparr>)"

definition runBatch ::
  "string \<Rightarrow> (string \<Rightarrow> string) \<Rightarrow> string list \<Rightarrow> completion list \<Rightarrow> batch" where
  "runBatch projectId resolvesWith keys cs =
     foldl (complete projectId resolvesWith) (startBatch projectId keys) cs"

text \<open>
  The two operations, from the two file trees on: the transfers end in the order \<open>cs\<close>.
  \<^verbatim>\<open>uploadFile(projectId, absolutePath, key)\<close> resolves with its \<^verbatim>\<open>remotePath\<close>, the
  key. \<^verbatim>\<open>downloadFile(projectId, key, absolutePath)\<close> resolves with its \<^verbatim>\<open>localPath\<close>,
  which is \<^verbatim>\<open>path.join(projectDir, key.substr(1))\<close>; \<open>join\<close> stands for \<^verbatim>\<open>path.join\<close>
  of the host.
\<close>

definition uploadProject :: "heap \<Rightarrow> string \<Rightarrow> ref \<Rightarrow> ref \<Rightarrow> completion list \<Rightarrow> batch" where
  "uploadProject h projectId localFiles remoteFiles cs =
     runBatch projectId (\<lambda>key. key) (uploadKeys h localFiles remoteFiles) cs"

definition downloadProject ::
  "(string \<Rightarrow> string \<Rightarrow> string) \<Rightarrow> heap \<Rightarrow> string \<Rightarrow> string \<Rightarrow> ref \<Rightarrow> ref \<Rightarrow>
   completion list \<Rightarrow> batch" where
  "downloadProject join h projectId projectDir localFiles remoteFiles cs =
     runBatch projectId (\<lambda>key. join projectDir (drop 1 key))
       (map fst (filterFiles h remoteFiles localFiles remoteFiles)) cs"

definition succeeded :: "completion \<Rightarrow> bool" where
  "succeeded c = (case c of Succeeded _ \<Rightarrow> True | Failed _ _ \<Rightarrow> False)"

fun decided :: "completion list \<Rightarrow> string option" where
  "decided [] = None"
| "decided (Succeeded key # cs) = decided cs"
| "decided (Failed key error # cs) = Some error"

text \<open>
  What a batch has come to after the completions \<open>cs\<close>: the state of each entry of
  \<^verbatim>\<open>defers\<close>, the state of the operation's deferred and the progress events.
\<close>

definition toOutcome :: "completion \<Rightarrow> (unit, string) outcome" where
  "toOutcome c = (case c of Succeeded _ \<Rightarrow> Resolved () | Failed _ error \<Rightarrow> Rejected error)"

definition verdict :: "string \<Rightarrow> nat \<Rightarrow> completion list \<Rightarrow> (string, string) outcome" where
  "verdict projectId n cs =
     (case decided cs of
        Some error \<Rightarrow> Rejected error
      | None \<Rightarrow> if length cs = n then Resolved projectId else Pending)"

definition events :: "nat \<Rightarrow> (string \<Rightarrow> string) \<Rightarrow> completion list \<Rightarrow> progress_event list" where
  "events n resolvesWith cs =
     map (\<lambda>(i, c). \<lparr>path = resolvesWith (task c), total = n, index = i\<rparr>)
         (enumerate 0 (takeWhile succeeded cs))"

section \<open>Cloning\<close>

text \<open>
  \<^verbatim>\<open>Array.prototype.reduce\<close> without an initial value throws on an empty array.
\<close>

datatype js_error = TypeError

definition reduce :: "('a \<Rightarrow> 'a \<Rightarrow> 'a) \<Rightarrow> 'a list \<Rightarrow> js_error + 'a" where
  "reduce f xs = (case xs of [] \<Rightarrow> Inl TypeError | x # rest \<Rightarrow> Inr (foldl f x rest))"

text \<open>
  The state of \<^verbatim>\<open>cloneProject\<close> once the remote tree has arrived: the batch, the
  downloads and the \<^verbatim>\<open>localProperties.set\<close> call that have not ended yet, and the
  exception, if any, that left the handler. An exception thrown by a fulfilment handler
  rejects the promise that \<^verbatim>\<open>then\<close> returned, which \<^verbatim>\<open>cloneProject\<close> drops.
\<close>

record clone =
  cloneTotal :: nat
  cloneIndex :: nat
  cloneDefers :: "(unit, string) outcome list"
  downloads :: "string list"
  saving :: bool
  thrown :: "js_error option"
  cloneDeferred :: "(string, string, progress_event) deferred_state"

definition cloneFiles :: "filetree \<Rightarrow> clone" where
  "cloneFiles files =
     (case reduce (+)
             (map (\<lambda>key. case map_of files key of
                            None \<Rightarrow> 0
                          | Some f \<Rightarrow> if type f = File then 1 else (0::nat))
                  (map fst files)) of
        Inl err \<Rightarrow>
          \<lparr>cloneTotal = 0, cloneIndex = 0, cloneDefers = [], downloads = [], saving = False,
           thrown = Some err, cloneDeferred = \<lparr>state = Pending, progress = []\<rparr>\<rparr>
      | Inr len \<Rightarrow>
          \<lparr>cloneTotal = len, cloneIndex = 0,
           cloneDefers = replicate len Pending,
           downloads = filter (\<lambda>key. case map_of files key of
                                        None \<Rightarrow> False
                                      | Some f \<Rightarrow> type f = File) (map fst files),
           saving = list_all isResolved (replicate len (Pending :: (unit, string) outcome)),
           thrown = None, cloneDeferred = \<lparr>state = Pending, progress = []\<rparr>\<rparr>)"

datatype clone_event = Downloaded string "string + string" | Saved bool

definition cloneSettle :: "(unit, string) outcome \<Rightarrow> clone \<Rightarrow> clone" where
  "cloneSettle out s =
     (let i = cloneIndex s in
      if i < length (cloneDefers s) \<and> cloneDefers s ! i = Pending then
        (let ds = (cloneDefers s)[i := out] in
         case out of
           Rejected error \<Rightarrow>
             s\<lparr>cloneDefers := ds, cloneDeferred := reject error (cloneDeferred s)\<rparr>
         | _ \<Rightarrow> s\<lparr>cloneDefers := ds, saving := list_all isResolved ds\<rparr>)
      else s)"

text \<open>
  One event of a clone. When \<^verbatim>\<open>localProperties.set\<close> fails, the handler reads the
  undeclared \<^verbatim>\<open>error\<close> and throws, so nothing is settled.
\<close>

definition cloneStep :: "string \<Rightarrow> clone \<Rightarrow> clone_event \<Rightarrow> clone" where
  "cloneStep destDir s ev =
     (case ev of
        Downloaded key r \<Rightarrow>
          if key \<in> set (downloads s) then
            (let s0 = s\<lparr>downloads := remove1 key (downloads s)\<rparr>;
                 s1 = (case r of
                         Inr dest \<Rightarrow>
                           cloneSettle (Resolved ())
                             (s0\<lparr>cloneDeferred :=
                                   notify \<lparr>path = dest, total = cloneTotal s0,
                                           index = cloneIndex s0\<rparr> (cloneDeferred s0)\<rparr>)
                       | Inl error \<Rightarrow> cloneSettle (Rejected error) s0)
             in s1\<lparr>cloneIndex := cloneIndex s1 + 1\<rparr>)
          else s
      | Saved ok \<Rightarrow>
          if saving s then
            (if ok then s\<lparr>saving := False, cloneDeferred := resolve destDir (cloneDeferred s)\<rparr>
             else s\<lparr>saving := False\<rparr>)
          else s)"

section \<open>The build orchestrator\<close>

text \<open>
  The build parameters that \<^verbatim>\<open>buildProject\<close> reads, each a string or
  \<^verbatim>\<open>undefined\<close>; \<^verbatim>\<open>!v\<close> holds of \<^verbatim>\<open>undefined\<close> and of the empty string.
\<close>

record build_params =
  platform :: "string option"
  framework_version :: "string option"
  purpose :: "string option"

definition falsy :: "string option \<Rightarrow> bool" where
  "falsy v = (v = None \<or> v = Some [])"

text \<open>
  The parsed \<^verbatim>\<open>result\<close> of a status reply and of a result reply, with the fields the
  code reads.
\<close>

record status_body =
  description :: string
  finished :: bool
  status :: string

record result_body =
  error_message :: string
  other_fields :: string

text \<open>
  What the orchestrator does, in program order: its calls of \<^verbatim>\<open>this._post\<close> (which
  sends the request when the client is logged in), of the timer functions, and of the
  methods of the two deferreds, the one of \<^verbatim>\<open>pollBuild\<close> and the one of
  \<^verbatim>\<open>buildProject\<close>.
\<close>

datatype action =
    Post string "build_params option"
  | SetInterval
  | ClearInterval
  | PollNotify string
  | PollResolve string
  | PollReject string
  | BuildNotify string
  | BuildResolve result_body
  | BuildReject string

text \<open>The handlers that wait for the reply of a \<^verbatim>\<open>_post\<close> call.\<close>

datatype handler = OnSubmit | OnStatus | OnFailResult | OnBuildResult

text \<open>
  The promise library does not run a handler inside \<^verbatim>\<open>notify\<close>, \<^verbatim>\<open>resolve\<close> or
  \<^verbatim>\<open>reject\<close>: it queues the handler, and the queue is run, first in first out, when
  the running callback has returned. A job is one queued run of a handler that
  \<^verbatim>\<open>buildProject\<close> attached to the promise of \<^verbatim>\<open>pollBuild\<close>.
\<close>

datatype job = Progressed string | Fulfilled string | RejectedWith string

record build =
  buildRoot :: string
  params :: build_params
  buildDeferred :: "(result_body, string, string) deferred_state"
  queueId :: string
  pollDeferred :: "(string, string, string) deferred_state"
  counter :: nat
  interval :: bool
  waiting :: "handler list"
  jobs :: "job list"
  trace :: "action list"

definition post :: "string \<Rightarrow> build_params option \<Rightarrow> handler \<Rightarrow> build \<Rightarrow> build" where
  "post resource data k s =
     s\<lparr>waiting := waiting s @ [k], trace := trace s @ [Post resource data]\<rparr>"

definition clearInterval :: "build \<Rightarrow> build" where
  "clearInterval s = s\<lparr>interval := False, trace := trace s @ [ClearInterval]\<rparr>"

definition buildReject :: "string \<Rightarrow> build \<Rightarrow> build" where
  "buildReject error s =
     s\<lparr>buildDeferred := reject error (buildDeferred s), trace := trace s @ [BuildReject error]\<rparr>"

definition buildResolve :: "result_body \<Rightarrow> build \<Rightarrow> build" where
  "buildResolve r s =
     s\<lparr>buildDeferred := resolve r (buildDeferred s), trace := trace s @ [BuildResolve r]\<rparr>"

definition buildNotify :: "string \<Rightarrow> build \<Rightarrow> build" where
  "buildNotify p s =
     s\<lparr>buildDeferred := notify p (buildDeferred s), trace := trace s @ [BuildNotify p]\<rparr>"

text \<open>
  The deferred of \<^verbatim>\<open>pollBuild\<close>. A call that the deferred takes queues the handler
  that \<^verbatim>\<open>buildProject\<close> attached for it.
\<close>

definition pollReject :: "string \<Rightarrow> build \<Rightarrow> build" where
  "pollReject error s =
     (let s1 = s\<lparr>pollDeferred := reject error (pollDeferred s),
                 trace := trace s @ [PollReject error]\<rparr>
      in if state (pollDeferred s) = Pending
         then s1\<lparr>jobs := jobs s1 @ [RejectedWith error]\<rparr> else s1)"

definition pollResolve :: "string \<Rightarrow> build \<Rightarrow> build" where
  "pollResolve d s =
     (let s1 = s\<lparr>pollDeferred := resolve d (pollDeferred s),
                 trace := trace s @ [PollResolve d]\<rparr>
      in if state (pollDeferred s) = Pending
         then s1\<lparr>jobs := jobs s1 @ [Fulfilled d]\<rparr> else s1)"

definition pollNotify :: "string \<Rightarrow> build \<Rightarrow> build" where
  "pollNotify d s =
     (let s1 = s\<lparr>pollDeferred := notify d (pollDeferred s),
                 trace := trace s @ [PollNotify d]\<rparr>
      in if state (pollDeferred s) = Pending
         then s1\<lparr>jobs := jobs s1 @ [Progressed d]\<rparr> else s1)"

text \<open>
  The three handlers of \<^verbatim>\<open>pollBuild(queueId).then(...)\<close>: on fulfilment fetch the
  result, pass a rejection on, pass a notification on.
\<close>

definition runJob :: "build \<Rightarrow> job \<Rightarrow> build" where
  "runJob s j =
     (case j of
        Progressed p \<Rightarrow> buildNotify p s
      | Fulfilled v \<Rightarrow> post (buildRoot s @ ''/result/'' @ queueId s) None OnBuildResult s
      | RejectedWith error \<Rightarrow> buildReject error s)"

definition flush :: "build \<Rightarrow> build" where
  "flush s = foldl runJob (s\<lparr>jobs := []\<rparr>) (jobs s)"

text \<open>
  \<^verbatim>\<open>buildProject\<close> up to its return: the defaults, the check of the platform, and
  the submit request. A call without \<^verbatim>\<open>params\<close> has the three fields undefined.
\<close>

definition buildProject :: "string \<Rightarrow> build_params \<Rightarrow> build" where
  "buildProject projectId params0 =
     (let root = ''/project/'' @ projectId @ ''/build'';
          p1 = (if falsy (framework_version params0)
                then params0\<lparr>framework_version := Some ''3.5''\<rparr> else params0);
          p2 = (if falsy (purpose p1) then p1\<lparr>purpose := Some ''debug''\<rparr> else p1);
          s0 = \<lparr>buildRoot = root, params = p2,
                buildDeferred = \<lparr>state = Pending, progress = []\<rparr>,
                queueId = [],
                pollDeferred = \<lparr>state = Pending, progress = []\<rparr>,
                counter = 0, interval = False, waiting = [], jobs = [], trace = []\<rparr>;
          s1 = (if falsy (platform p2) then buildReject ''Must specify build platform.'' s0
                else s0)
      in post root (Some p2) OnSubmit s1)"

text \<open>\<^verbatim>\<open>pollBuild(queueId)\<close>: a new deferred, the counter at zero, the timer armed.\<close>

definition pollBuild :: "string \<Rightarrow> build \<Rightarrow> build" where
  "pollBuild q s =
     s\<lparr>queueId := q, pollDeferred := \<lparr>state = Pending, progress = []\<rparr>, counter := 0,
       interval := True, trace := trace s @ [SetInterval]\<rparr>"

text \<open>
  The callback of \<^verbatim>\<open>setInterval\<close>: \<^verbatim>\<open>counter++ == 80\<close> compares the old value and
  increments it; the status request follows in either case.
\<close>

definition tick :: "build \<Rightarrow> build" where
  "tick s =
     (let s1 = (if counter s = 80 then pollReject ''Build timed out'' (clearInterval s) else s);
          s2 = s1\<lparr>counter := counter s1 + 1\<rparr>
      in post (buildRoot s2 @ ''/status/'' @ queueId s2) None OnStatus s2)"

definition onStatus :: "string + status_body \<Rightarrow> build \<Rightarrow> build" where
  "onStatus reply s =
     (case reply of
        Inr result \<Rightarrow>
          (let s1 = pollNotify (description result) s in
           if finished result then
             (let s2 = clearInterval s1 in
              if status result = ''finish'' then pollResolve (description result) s2
              else post (buildRoot s2 @ ''/result/'' @ queueId s2) None OnFailResult s2)
           else s1)
      | Inl error \<Rightarrow> pollReject error (clearInterval s))"

definition onFailResult :: "string + result_body \<Rightarrow> build \<Rightarrow> build" where
  "onFailResult reply s =
     (case reply of
        Inr result \<Rightarrow> pollReject (error_message result) s
      | Inl error \<Rightarrow> pollReject error s)"

definition onBuildResult :: "string + result_body \<Rightarrow> build \<Rightarrow> build" where
  "onBuildResult reply s =
     (case reply of
        Inr result \<Rightarrow> buildResolve result s
      | Inl error \<Rightarrow> buildReject error s)"

definition onSubmit :: "string + string \<Rightarrow> build \<Rightarrow> build" where
  "onSubmit reply s =
     (case reply of
        Inr q \<Rightarrow> pollBuild q s
      | Inl error \<Rightarrow> buildReject error s)"

text \<open>
  The events of a build: the timer fires, which it does only while armed, or the reply
  of a request arrives, which goes to a handler that waits for it. An event runs its
  callback and then the queue of the promise library.
\<close>

datatype event =
    Tick
  | SubmitReply "string + string"
  | StatusReply "string + status_body"
  | FailResultReply "string + result_body"
  | BuildResultReply "string + result_body"

definition answered :: "handler \<Rightarrow> build \<Rightarrow> build" where
  "answered k s = s\<lparr>waiting := remove1 k (waiting s)\<rparr>"

fun callback :: "build \<Rightarrow> event \<Rightarrow> build" where
  "callback s Tick = (if interval s then tick s else s)"
| "callback s (SubmitReply r) =
     (if OnSubmit \<in> set (waiting s) then onSubmit r (answered OnSubmit s) else s)"
| "callback s (StatusReply r) =
     (if OnStatus \<in> set (waiting s) then onStatus r (answered OnStatus s) else s)"
| "callback s (FailResultReply r) =
     (if OnFailResult \<in> set (waiting s) then onFailResult r (answered OnFailResult s) else s)"
| "callback s (BuildResultReply r) =
     (if OnBuildResult \<in> set (waiting s) then onBuildResult r (answered OnBuildResult s)
      else s)"

definition step :: "build \<Rightarrow> event \<Rightarrow> build" where
  "step s ev = flush (callback s ev)"

definition run :: "build \<Rightarrow> event list \<Rightarrow> build" where
  "run s evs = foldl step s evs"

text \<open>The orchestration is undecided while neither deferred is settled.\<close>

definition undecided :: "build \<Rightarrow> bool" where
  "undecided s \<longleftrightarrow> state (pollDeferred s) = Pending \<and> state (buildDeferred s) = Pending"

text \<open>The poller at work: armed, undecided, with \<open>n\<close> ticks behind it.\<close>

definition polling :: "build \<Rightarrow> nat \<Rightarrow> bool" where
  "polling s n \<longleftrightarrow>
     interval s \<and> counter s = n \<and> undecided s \<and> jobs s = [] \<and> OnStatus \<notin> set (waiting s)"





section \<open>The local tree scanner\<close>

text \<open>
  What the scanner finds at a name of the listing: a directory, or a file whose
  \<^verbatim>\<open>readFile\<close> fails with an error or gives data with the hexadecimal checksum
  \<^verbatim>\<open>crc32(data).toString('hex')\<close>.
\<close>

datatype node = Dir | Regular "string + string"

text \<open>\<^verbatim>\<open>files[key] = obj\<close> and \<^verbatim>\<open>files[key].hash = checksum\<close>.\<close>

definition assign :: "string \<Rightarrow> entry \<Rightarrow> filetree \<Rightarrow> filetree" where
  "assign key obj files =
     (if hasOwnProperty files key
      then map (\<lambda>p. if fst p = key then (key, obj) else p) files
      else files @ [(key, obj)])"

definition setHash :: "string \<Rightarrow> string \<Rightarrow> filetree \<Rightarrow> filetree" where
  "setHash key checksum files =
     map (\<lambda>p. if fst p = key then (fst p, (snd p)\<lparr>hash := Some checksum\<rparr>) else p) files"

text \<open>
  \<^verbatim>\<open>Q.all(promises)\<close> is rejected with the error of a checksum promise that is
  rejected; the model takes the first one in the order of the listing.
\<close>

fun firstError :: "(string \<times> (string + string)) list \<Rightarrow> string option" where
  "firstError [] = None"
| "firstError ((key, Inl error) # ps) = Some error"
| "firstError ((key, Inr checksum) # ps) = firstError ps"

text \<open>
  \<^verbatim>\<open>getLocalProjectFiles(projectDir)\<close> on a host whose path separator is the slash,
  where \<^verbatim>\<open>path.join('/', file)\<close> puts a slash before the name. \<open>dirExists\<close> is the
  answer of \<^verbatim>\<open>fs.exists(projectDir)\<close> and \<open>ls\<close> is \<^verbatim>\<open>shell.ls('-RA', projectDir)\<close>,
  the names relative to the root of everything below it, each with what is found there.
\<close>

definition getLocalProjectFiles :: "string \<Rightarrow> bool \<Rightarrow> (string \<times> node) list \<Rightarrow> string + filetree" where
  "getLocalProjectFiles projectDir dirExists ls =
     (if dirExists then
        (let list = filter (\<lambda>p. indexOf (fst p) ''node_modules'' \<noteq> 0) ls;
             files = fold (\<lambda>p. assign (CHR ''/'' # fst p)
                              \<lparr>type = (case snd p of Dir \<Rightarrow> Directory | Regular _ \<Rightarrow> File),
                               hash = None\<rparr>) list [];
             promises = concat (map (\<lambda>p. case snd p of
                                             Dir \<Rightarrow> []
                                           | Regular r \<Rightarrow> [(CHR ''/'' # fst p, r)]) list)
         in case firstError promises of
              Some error \<Rightarrow> Inl error
            | None \<Rightarrow>
                Inr (delete_key ''/.monaca/local_properties.json''
                       (fold (\<lambda>p. case snd p of
                                     Inr checksum \<Rightarrow> setHash (fst p) checksum
                                   | Inl _ \<Rightarrow> id) promises files)))
      else Inl (projectDir @ '' does not exist''))"

section \<open>Properties of the differ\<close>

lemma map_of_filter_fst:
  "map_of (filter (\<lambda>p. Q (fst p)) xs) k = (if Q k then map_of xs k else None)"
  by (induction xs) auto

lemma filter_cong_keys:
  "(\<And>p. p \<in> set xs \<Longrightarrow> P (fst p) = Q (fst p)) \<Longrightarrow>
   filter (\<lambda>p. P (fst p)) xs = filter (\<lambda>p. Q (fst p)) xs"
  by (induction xs) auto

lemma filterStep_frame: "r \<noteq> dst \<Longrightarrow> filterStep dst src key h r = h r"
  by (simp add: filterStep_def split: option.splits)

lemma filterStep_dst:
  assumes inv: "h dst = filter (\<lambda>p. Q (fst p)) d0"
    and sound: "\<And>k. \<not> Q k \<Longrightarrow> removed d0 s0 k"
    and other: "src \<noteq> dst \<Longrightarrow> h src = s0"
    and same: "src = dst \<Longrightarrow> s0 = d0"
  shows "filterStep dst src key h dst =
         filter (\<lambda>p. Q (fst p) \<and> (fst p = key \<longrightarrow> \<not> removed d0 s0 (fst p))) d0"
proof (cases "Q key")
  case False
  then have gone: "map_of (h dst) key = None"
    by (simp add: inv map_of_filter_fst)
  have "filter (\<lambda>p. Q (fst p) \<and> (fst p = key \<longrightarrow> \<not> removed d0 s0 (fst p))) d0
        = filter (\<lambda>p. Q (fst p)) d0"
    using False by (intro filter_cong_keys) auto
  with gone inv show ?thesis
    by (simp add: filterStep_def hasOwnProperty_def)
next
  case True
  then have here: "map_of (h dst) key = map_of d0 key"
    by (simp add: inv map_of_filter_fst)
  have there: "map_of d0 key \<noteq> None \<Longrightarrow> map_of (h src) key = map_of s0 key"
  proof (cases "src = dst")
    case True
    with here same show ?thesis by simp
  next
    case False
    with other show ?thesis by simp
  qed
  show ?thesis
  proof (cases "removed d0 s0 key")
    case True
    have "filterStep dst src key h dst = delete_key key (h dst)"
      using True here there
      by (auto simp: filterStep_def hasOwnProperty_def removed_def split: option.splits)
    also have "\<dots> = filter (\<lambda>p. Q (fst p) \<and> fst p \<noteq> key) d0"
      by (simp add: delete_key_def inv conj_commute)
    also have "\<dots> = filter (\<lambda>p. Q (fst p) \<and> (fst p = key \<longrightarrow> \<not> removed d0 s0 (fst p))) d0"
      using True by (intro filter_cong_keys) auto
    finally show ?thesis .
  next
    case False
    have "filterStep dst src key h dst = h dst"
      using False here there
      by (auto simp: filterStep_def hasOwnProperty_def removed_def split: option.splits)
    also have "\<dots> = filter (\<lambda>p. Q (fst p) \<and> (fst p = key \<longrightarrow> \<not> removed d0 s0 (fst p))) d0"
      unfolding inv using False by (intro filter_cong_keys) auto
    finally show ?thesis .
  qed
qed

lemma filterLoop_frame: "r \<noteq> dst \<Longrightarrow> fold (filterStep dst src) ks h r = h r"
  by (induction ks arbitrary: h) (simp_all add: filterStep_frame)

lemma filterLoop_dst:
  "h dst = filter (\<lambda>p. Q (fst p)) d0 \<Longrightarrow>
   (\<And>k. \<not> Q k \<Longrightarrow> removed d0 s0 k) \<Longrightarrow>
   (src \<noteq> dst \<Longrightarrow> h src = s0) \<Longrightarrow>
   (src = dst \<Longrightarrow> s0 = d0) \<Longrightarrow>
   fold (filterStep dst src) ks h dst =
     filter (\<lambda>p. Q (fst p) \<and> (fst p \<in> set ks \<longrightarrow> \<not> removed d0 s0 (fst p))) d0"
proof (induction ks arbitrary: h Q)
  case Nil
  then show ?case by simp
next
  case (Cons key ks)
  let ?h = "filterStep dst src key h"
  let ?Q = "\<lambda>k. Q k \<and> (k = key \<longrightarrow> \<not> removed d0 s0 k)"
  have inv: "?h dst = filter (\<lambda>p. ?Q (fst p)) d0"
    using Cons.prems by (rule filterStep_dst)
  have sound: "\<And>k. \<not> ?Q k \<Longrightarrow> removed d0 s0 k"
    using Cons.prems(2) by blast
  have other: "src \<noteq> dst \<Longrightarrow> ?h src = s0"
    using Cons.prems(3) by (simp add: filterStep_frame)
  have "fold (filterStep dst src) ks ?h dst =
        filter (\<lambda>p. ?Q (fst p) \<and> (fst p \<in> set ks \<longrightarrow> \<not> removed d0 s0 (fst p))) d0"
    using inv sound other Cons.prems(4) by (rule Cons.IH)
  also have "\<dots> = filter (\<lambda>p. Q (fst p) \<and>
                 (fst p \<in> set (key # ks) \<longrightarrow> \<not> removed d0 s0 (fst p))) d0"
    by (intro filter_cong_keys) auto
  finally show ?case by simp
qed

lemma filterFiles_dst:
  "filterFiles h dst src dst = filter (\<lambda>p. \<not> removed (h dst) (h src) (fst p)) (h dst)"
proof -
  have "fold (filterStep dst src) (map fst (h dst)) h dst =
        filter (\<lambda>p. True \<and> (fst p \<in> set (map fst (h dst)) \<longrightarrow>
                  \<not> removed (h dst) (h src) (fst p))) (h dst)"
    by (rule filterLoop_dst) simp_all
  also have "\<dots> = filter (\<lambda>p. \<not> removed (h dst) (h src) (fst p)) (h dst)"
    by (intro filter_cong_keys) auto
  finally show ?thesis by (simp add: filterFiles_def)
qed

lemma filterFiles_frame: "r \<noteq> dst \<Longrightarrow> filterFiles h dst src r = h r"
  by (simp add: filterFiles_def filterLoop_frame)

lemma removed_entry:
  "distinct (map fst d0) \<Longrightarrow> (key, d) \<in> set d0 \<Longrightarrow>
   removed d0 s0 key \<longleftrightarrow>
     \<not> (type d = File \<and> (case map_of s0 key of None \<Rightarrow> True | Some s \<Rightarrow> hash s \<noteq> hash d))"
  by (cases "type d") (auto simp: removed_def split: option.splits)

text \<open>
  C1. The diff leaves in the destination exactly its entries of kind File for which the
  source has no entry at the same path or has one with a different hash: directories
  go, files with an equal hash in the source go, and a file absent from the source
  stays. Diffing a tree against itself (the same object, or another object with the same
  entries) leaves nothing, so in particular nothing of a tree that holds only files.
\<close>

theorem filterFiles_exact:
  assumes "distinct (map fst (h dst))"
  shows "filterFiles h dst src dst =
           filter (\<lambda>(key, d). type d = File \<and>
                     (case map_of (h src) key of
                        None \<Rightarrow> True
                      | Some s \<Rightarrow> hash s \<noteq> hash d)) (h dst)
         \<and> (h src = h dst \<longrightarrow> filterFiles h dst src dst = [])"
proof
  show "filterFiles h dst src dst =
           filter (\<lambda>(key, d). type d = File \<and>
                     (case map_of (h src) key of
                        None \<Rightarrow> True
                      | Some s \<Rightarrow> hash s \<noteq> hash d)) (h dst)"
    unfolding filterFiles_dst
    by (rule filter_cong [OF refl]) (auto simp: removed_entry [OF assms])
  show "h src = h dst \<longrightarrow> filterFiles h dst src dst = []"
  proof
    assume eq: "h src = h dst"
    have "removed (h dst) (h dst) (fst p)" if "p \<in> set (h dst)" for p
    proof -
      obtain key d where p: "p = (key, d)" by (cases p)
      with that assms have "map_of (h dst) key = Some d" by simp
      then show ?thesis by (simp add: removed_def p)
    qed
    then show "filterFiles h dst src dst = []"
      by (simp add: filterFiles_dst eq)
  qed
qed

theorem filterFiles_exact_witness:
  "distinct (map fst [(''/a.js'', \<lparr>type = File, hash = Some ''111''\<rparr>),
                      (''/b.js'', \<lparr>type = File, hash = Some ''333''\<rparr>),
                      (''/www'', \<lparr>type = Directory, hash = None\<rparr>),
                      (''/new.js'', \<lparr>type = File, hash = Some ''444''\<rparr>)])
   \<and> filterFiles
       ((\<lambda>_. [])
         (0 := [(''/a.js'', \<lparr>type = File, hash = Some ''111''\<rparr>),
                (''/b.js'', \<lparr>type = File, hash = Some ''333''\<rparr>),
                (''/www'', \<lparr>type = Directory, hash = None\<rparr>),
                (''/new.js'', \<lparr>type = File, hash = Some ''444''\<rparr>)],
          Suc 0 := [(''/a.js'', \<lparr>type = File, hash = Some ''222''\<rparr>),
                (''/b.js'', \<lparr>type = File, hash = Some ''333''\<rparr>)])) 0 (Suc 0) 0
     = [(''/a.js'', \<lparr>type = File, hash = Some ''111''\<rparr>),
        (''/new.js'', \<lparr>type = File, hash = Some ''444''\<rparr>)]"
  using filterFiles_exact [of
       "(\<lambda>_. [])
         (0 := [(''/a.js'', \<lparr>type = File, hash = Some ''111''\<rparr>),
                (''/b.js'', \<lparr>type = File, hash = Some ''333''\<rparr>),
                (''/www'', \<lparr>type = Directory, hash = None\<rparr>),
                (''/new.js'', \<lparr>type = File, hash = Some ''444''\<rparr>)],
          Suc 0 := [(''/a.js'', \<lparr>type = File, hash = Some ''222''\<rparr>),
                (''/b.js'', \<lparr>type = File, hash = Some ''333''\<rparr>)])" 0 "Suc 0"]
  by simp

text \<open>
  C10. With two distinct objects, the call leaves the source object as it was, and every
  other object of the store too, so no tree is created; the destination object keeps a
  subsequence of its own entries, that is, the filtering only deletes properties of
  \<^verbatim>\<open>dst\<close>.
\<close>

theorem filterFiles_frame_src:
  assumes "dst \<noteq> src"
  shows "filterFiles h dst src src = h src
         \<and> (\<forall>r. r \<noteq> dst \<longrightarrow> filterFiles h dst src r = h r)
         \<and> filterFiles h dst src dst =
             filter (\<lambda>p. hasOwnProperty (filterFiles h dst src dst) (fst p)) (h dst)"
proof -
  have keys: "hasOwnProperty (filterFiles h dst src dst) k \<longleftrightarrow>
              hasOwnProperty (h dst) k \<and> \<not> removed (h dst) (h src) k" for k
    by (simp add: hasOwnProperty_def filterFiles_dst
          map_of_filter_fst [of "\<lambda>k. \<not> removed (h dst) (h src) k"])
  have "filter (\<lambda>p. hasOwnProperty (filterFiles h dst src dst) (fst p)) (h dst) =
        filter (\<lambda>p. \<not> removed (h dst) (h src) (fst p)) (h dst)"
  proof (intro filter_cong_keys)
    fix p assume "p \<in> set (h dst)"
    then have "hasOwnProperty (h dst) (fst p)"
      by (simp add: hasOwnProperty_def map_of_eq_None_iff)
    then show "hasOwnProperty (filterFiles h dst src dst) (fst p) =
               (\<not> removed (h dst) (h src) (fst p))"
      by (simp add: keys)
  qed
  with assms show ?thesis
    by (simp add: filterFiles_frame filterFiles_dst)
qed

theorem filterFiles_frame_src_witness:
  "(0::nat) \<noteq> Suc 0
   \<and> filterFiles
       ((\<lambda>_. [])
         (0 := [(''/a.js'', \<lparr>type = File, hash = Some ''111''\<rparr>),
                (''/www'', \<lparr>type = Directory, hash = None\<rparr>)],
          Suc 0 := [(''/a.js'', \<lparr>type = File, hash = Some ''111''\<rparr>),
                (''/c.js'', \<lparr>type = File, hash = Some ''555''\<rparr>)])) 0 (Suc 0) (Suc 0)
     = [(''/a.js'', \<lparr>type = File, hash = Some ''111''\<rparr>),
        (''/c.js'', \<lparr>type = File, hash = Some ''555''\<rparr>)]"
  using filterFiles_frame_src [of 0 "Suc 0"
       "(\<lambda>_. [])
         (0 := [(''/a.js'', \<lparr>type = File, hash = Some ''111''\<rparr>),
                (''/www'', \<lparr>type = Directory, hash = None\<rparr>)],
          Suc 0 := [(''/a.js'', \<lparr>type = File, hash = Some ''111''\<rparr>),
                (''/c.js'', \<lparr>type = File, hash = Some ''555''\<rparr>)])"]
  by simp

section \<open>Properties of the upload scope filter\<close>

lemma indexOf_absent_Cons:
  "indexOf (c # cs) pat < 0 \<longleftrightarrow> \<not> prefix pat (c # cs) \<and> indexOf cs pat < 0"
  by (simp add: Let_def)

lemma segments_first_hidden:
  "prefix ''.'' (hd (segments cs)) \<longleftrightarrow> prefix ''.'' cs"
  by (cases cs) (auto split: list.splits)

lemma segments_nonempty: "segments cs \<noteq> []"
  by (cases cs) (auto split: list.splits)

lemma segments_later_visible:
  "indexOf cs ''/.'' < 0 \<Longrightarrow> seg \<in> set (tl (segments cs)) \<Longrightarrow> \<not> prefix ''.'' seg"
proof (induction cs)
  case Nil
  then show ?case by simp
next
  case (Cons c cs)
  from Cons.prems(1) have no_here: "\<not> prefix ''/.'' (c # cs)" and rest: "indexOf cs ''/.'' < 0"
    unfolding indexOf_absent_Cons by blast+
  show ?case
  proof (cases "c = CHR ''/''")
    case True
    with Cons.prems(2) have mem: "seg \<in> set (segments cs)" by simp
    from True no_here have first: "\<not> prefix ''.'' (hd (segments cs))"
      by (simp add: segments_first_hidden)
    from mem segments_nonempty [of cs] have "seg = hd (segments cs) \<or> seg \<in> set (tl (segments cs))"
      by (cases "segments cs") auto
    with first Cons.IH [OF rest] show ?thesis by blast
  next
    case False
    with Cons.prems(2) have "seg \<in> set (tl (segments cs))"
      by (auto split: list.splits)
    with Cons.IH [OF rest] show ?thesis by blast
  qed
qed

lemma fileFilter_visible: "fileFilter fn \<Longrightarrow> \<not> hiddenSegment fn"
proof -
  assume ok: "fileFilter fn"
  then have absent: "indexOf fn ''/.'' < 0" and scope: "scopeTest fn"
    by (simp_all add: fileFilter_def split: if_splits)
  from scope obtain rest where fn: "fn = CHR ''/'' # rest"
    by (auto simp: scopeTest_def split: list.splits)
  have "\<not> prefix ''.'' seg" if "seg \<in> set (segments fn)" for seg
  proof -
    from that fn have "seg = [] \<or> seg \<in> set (tl (segments fn))" by simp
    with absent segments_later_visible [of fn seg] show ?thesis by auto
  qed
  then show ?thesis
    by (auto simp: hiddenSegment_def list_ex_iff)
qed

lemma fileFilter_scope:
  "fileFilter fn \<Longrightarrow>
   topLevel fn \<or> prefix ''/www/'' fn \<or> prefix ''/merges/'' fn \<or> prefix ''/plugins/'' fn"
  by (auto simp: fileFilter_def scopeTest_def topLevel_def split: if_splits list.splits)

lemma fileFilter_secret: "\<not> fileFilter ''/.monaca/secret.json''"
  by (simp add: fileFilter_def)

text \<open>
  C2. Every path of the upload transfer set has no hidden segment and is a top-level
  file or begins with \<^verbatim>\<open>/www/\<close>, \<^verbatim>\<open>/merges/\<close> or \<^verbatim>\<open>/plugins/\<close>; the path
  \<^verbatim>\<open>/.monaca/secret.json\<close> is in no upload transfer set, whatever the local and the
  remote tree hold.
\<close>

theorem upload_scope:
  "(\<forall>key \<in> set (uploadKeys h localFiles remoteFiles).
      \<not> hiddenSegment key \<and>
      (topLevel key \<or> prefix ''/www/'' key \<or> prefix ''/merges/'' key \<or> prefix ''/plugins/'' key))
   \<and> ''/.monaca/secret.json'' \<notin> set (uploadKeys h localFiles remoteFiles)"
  using fileFilter_secret
  by (auto simp: uploadKeys_def dest: fileFilter_visible fileFilter_scope)

theorem upload_scope_witness:
  "uploadKeys
     ((\<lambda>_. [])
       (0 := [(''/.monaca/secret.json'', \<lparr>type = File, hash = Some ''111''\<rparr>),
              (''/www/index.html'', \<lparr>type = File, hash = Some ''222''\<rparr>),
              (''/www'', \<lparr>type = Directory, hash = None\<rparr>),
              (''/platforms/ios/a.m'', \<lparr>type = File, hash = Some ''333''\<rparr>),
              (''/config.xml'', \<lparr>type = File, hash = Some ''444''\<rparr>)],
        Suc 0 := [(''/.monaca/secret.json'', \<lparr>type = File, hash = Some ''999''\<rparr>)]))
     0 (Suc 0) = [''/www/index.html'', ''/config.xml'']
   \<and> \<not> hiddenSegment ''/www/index.html'' \<and> prefix ''/www/'' ''/www/index.html''
   \<and> \<not> hiddenSegment ''/config.xml'' \<and> topLevel ''/config.xml''"
  using upload_scope [of
     "(\<lambda>_. [])
       (0 := [(''/.monaca/secret.json'', \<lparr>type = File, hash = Some ''111''\<rparr>),
              (''/www/index.html'', \<lparr>type = File, hash = Some ''222''\<rparr>),
              (''/www'', \<lparr>type = Directory, hash = None\<rparr>),
              (''/platforms/ios/a.m'', \<lparr>type = File, hash = Some ''333''\<rparr>),
              (''/config.xml'', \<lparr>type = File, hash = Some ''444''\<rparr>)],
        Suc 0 := [(''/.monaca/secret.json'', \<lparr>type = File, hash = Some ''999''\<rparr>)])"
     0 "Suc 0"]
  by (simp add: uploadKeys_def filterFiles_def filterStep_def hasOwnProperty_def delete_key_def
        fileFilter_def scopeTest_def hiddenSegment_def topLevel_def)

section \<open>Properties of transfer batches\<close>

lemma decided_None: "decided cs = None \<longleftrightarrow> list_all succeeded cs"
  by (induction cs rule: decided.induct) (simp_all add: succeeded_def)

lemma decided_snoc:
  "decided (cs @ [c]) =
     (case decided cs of
        Some e \<Rightarrow> Some e
      | None \<Rightarrow> (case c of Succeeded _ \<Rightarrow> None | Failed _ e \<Rightarrow> Some e))"
  by (induction cs rule: decided.induct) (simp_all split: completion.splits)

lemma events_snoc:
  "events n f (cs @ [c]) =
     (if decided cs = None \<and> succeeded c
      then events n f cs @ [\<lparr>path = f (task c), total = n, index = length cs\<rparr>]
      else events n f cs)"
proof (cases "list_all succeeded cs")
  case True
  then have tw: "takeWhile succeeded cs = cs"
    by (simp add: list_all_iff)
  have "takeWhile succeeded (cs @ [c]) = cs @ (if succeeded c then [c] else [])"
    using True by (simp add: list_all_iff)
  then show ?thesis
    using True by (simp add: events_def decided_None enumerate_append_eq tw)
next
  case False
  then have "takeWhile succeeded (cs @ [c]) = takeWhile succeeded cs"
    by (auto simp: list_all_iff takeWhile_append1)
  with False show ?thesis
    by (simp add: events_def decided_None)
qed

lemma update_first_pending:
  "0 < n \<Longrightarrow> (xs @ replicate n p)[length xs := v] = xs @ v # replicate (n - 1) p"
  by (cases n) (simp_all add: list_update_append)

lemma all_resolved_iff:
  "list_all isResolved (map toOutcome cs @ replicate n Pending) \<longleftrightarrow>
   decided cs = None \<and> n = 0"
  by (induction cs rule: decided.induct)
     (auto simp: isResolved_def toOutcome_def list_all_iff)

lemma runBatch_state:
  "length cs \<le> length keys \<Longrightarrow>
   runBatch projectId f keys cs =
     \<lparr>totalLength = length keys, currentIndex = length cs,
      defers = map toOutcome cs @ replicate (length keys - length cs) Pending,
      deferred = \<lparr>state = verdict projectId (length keys) cs,
                  progress = events (length keys) f cs\<rparr>\<rparr>"
proof (induction cs rule: rev_induct)
  case Nil
  show ?case
    by (cases keys) (simp_all add: runBatch_def startBatch_def verdict_def events_def
          resolve_def isResolved_def Let_def)
next
  case (snoc c cs)
  then have len: "length cs < length keys" by simp
  with snoc.IH have IH: "runBatch projectId f keys cs =
     \<lparr>totalLength = length keys, currentIndex = length cs,
      defers = map toOutcome cs @ replicate (length keys - length cs) Pending,
      deferred = \<lparr>state = verdict projectId (length keys) cs,
                  progress = events (length keys) f cs\<rparr>\<rparr>" by simp
  have step: "runBatch projectId f keys (cs @ [c]) =
              complete projectId f (runBatch projectId f keys cs) c"
    by (simp add: runBatch_def)
  have nth: "(map toOutcome cs @ replicate (length keys - length cs) Pending) ! length cs = Pending"
    using len by (simp add: nth_append)
  have upd: "\<And>v. (map toOutcome cs @ replicate (length keys - length cs) Pending)[length cs := v]
        = map toOutcome cs @ v # replicate (length keys - length cs - 1) Pending"
    using len update_first_pending [of "length keys - length cs" "map toOutcome cs"] by simp
  have rest: "length keys - Suc (length cs) = 0 \<longleftrightarrow> Suc (length cs) = length keys"
    using len by arith
  show ?case
  proof (cases c)
    case (Succeeded key)
    show ?thesis
      unfolding step IH
      using len nth upd all_resolved_iff [of "cs @ [c]" "length keys - Suc (length cs)"] rest
      by (simp add: complete_def settle_def Let_def Succeeded notify_def resolve_def
         verdict_def decided_snoc events_snoc succeeded_def task_def toOutcome_def
         split: option.splits)
  next
    case (Failed key e)
    show ?thesis
      unfolding step IH
      using len nth upd
      by (simp add: complete_def settle_def Let_def Failed notify_def resolve_def reject_def
         verdict_def decided_snoc events_snoc succeeded_def task_def toOutcome_def
         split: option.splits)
  qed
qed

lemma runBatch_verdict:
  "length cs \<le> length keys \<Longrightarrow>
   state (deferred (runBatch projectId f keys cs)) = verdict projectId (length keys) cs"
  by (simp add: runBatch_state)


lemma decided_first_failure:
  "\<forall>c \<in> set earlier. succeeded c \<Longrightarrow>
   decided (earlier @ Failed key error # later) = Some error"
  by (induction earlier rule: decided.induct) (simp_all add: succeeded_def)

lemma verdict_cases:
  assumes "length cs \<le> n"
  shows "(verdict projectId n cs = Resolved projectId \<longleftrightarrow>
            length cs = n \<and> (\<forall>c \<in> set cs. succeeded c))
       \<and> (\<forall>earlier key error later.
            cs = earlier @ Failed key error # later \<and> (\<forall>c \<in> set earlier. succeeded c) \<longrightarrow>
            verdict projectId n cs = Rejected error)"
  by (auto simp: verdict_def decided_None [unfolded list_all_iff, symmetric]
        decided_first_failure split: option.splits)


text \<open>
  C5. A batch of \<^verbatim>\<open>uploadProject\<close> or \<^verbatim>\<open>downloadProject\<close> is resolved exactly when
  every one of its transfers has ended in success; as soon as a transfer fails, the batch
  is rejected with the error of the first transfer that failed, and with that error
  alone. Completions are handled one at a time, in the order \<open>cs\<close>.
\<close>

theorem transfer_batch_outcome:
  assumes "b = uploadProject h projectId localFiles remoteFiles cs \<and>
             keys = uploadKeys h localFiles remoteFiles
           \<or> b = downloadProject join h projectId projectDir localFiles remoteFiles cs \<and>
             keys = map fst (filterFiles h remoteFiles localFiles remoteFiles)"
    and "length cs \<le> length keys"
  shows "(state (deferred b) = Resolved projectId \<longleftrightarrow>
            length cs = length keys \<and> (\<forall>c \<in> set cs. succeeded c))
       \<and> (\<forall>earlier key error later.
            cs = earlier @ Failed key error # later \<and> (\<forall>c \<in> set earlier. succeeded c) \<longrightarrow>
            state (deferred b) = Rejected error)"
proof -
  from assms(1) obtain f where "b = runBatch projectId f keys cs"
    by (auto simp: uploadProject_def downloadProject_def)
  then have "state (deferred b) = verdict projectId (length keys) cs"
    using assms(2) by (simp add: runBatch_verdict)
  then show ?thesis
    using verdict_cases [OF assms(2), of projectId] by simp
qed

theorem transfer_batch_outcome_witness:
  "length [Succeeded ''/www/a.js'', Failed ''/www/b.js'' ''ECONNRESET''] \<le>
     length (uploadKeys
       ((\<lambda>_. [])
         (0 := [(''/www/a.js'', \<lparr>type = File, hash = Some ''111''\<rparr>),
                (''/www/b.js'', \<lparr>type = File, hash = Some ''222''\<rparr>)],
          Suc 0 := [(''/www/a.js'', \<lparr>type = File, hash = Some ''999''\<rparr>)])) 0 (Suc 0))
   \<and> state (deferred (uploadProject
       ((\<lambda>_. [])
         (0 := [(''/www/a.js'', \<lparr>type = File, hash = Some ''111''\<rparr>),
                (''/www/b.js'', \<lparr>type = File, hash = Some ''222''\<rparr>)],
          Suc 0 := [(''/www/a.js'', \<lparr>type = File, hash = Some ''999''\<rparr>)]))
       ''P1'' 0 (Suc 0) [Succeeded ''/www/a.js'', Failed ''/www/b.js'' ''ECONNRESET'']))
     = Rejected ''ECONNRESET''"
proof -
  let ?h = "(\<lambda>_. [])
         (0 := [(''/www/a.js'', \<lparr>type = File, hash = Some ''111''\<rparr>),
                (''/www/b.js'', \<lparr>type = File, hash = Some ''222''\<rparr>)],
          Suc 0 := [(''/www/a.js'', \<lparr>type = File, hash = Some ''999''\<rparr>)])"
  let ?cs = "[Succeeded ''/www/a.js'', Failed ''/www/b.js'' ''ECONNRESET'']"
  have keys: "uploadKeys ?h 0 (Suc 0) = [''/www/a.js'', ''/www/b.js'']"
    by (simp add: uploadKeys_def filterFiles_def filterStep_def hasOwnProperty_def
          delete_key_def fileFilter_def scopeTest_def)
  have len: "length ?cs \<le> length (uploadKeys ?h 0 (Suc 0))"
    by (simp add: keys)
  have split: "?cs = [Succeeded ''/www/a.js''] @ Failed ''/www/b.js'' ''ECONNRESET'' # []
               \<and> (\<forall>c \<in> set [Succeeded ''/www/a.js'']. succeeded c)"
    by (simp add: succeeded_def)
  from transfer_batch_outcome
         [where b = "uploadProject ?h ''P1'' 0 (Suc 0) ?cs" and h = ?h and projectId = "''P1''"
            and localFiles = 0 and remoteFiles = "Suc 0" and cs = ?cs
            and keys = "uploadKeys ?h 0 (Suc 0)", OF _ len]
  have "state (deferred (uploadProject ?h ''P1'' 0 (Suc 0) ?cs)) = Rejected ''ECONNRESET''"
    using split by blast
  with len show ?thesis by blast
qed




lemma cloneStep_idle:
  "downloads s = [] \<Longrightarrow> \<not> saving s \<Longrightarrow> cloneStep destDir s ev = s"
  by (simp add: cloneStep_def split: clone_event.splits)

lemma clone_idle: "downloads s = [] \<Longrightarrow> \<not> saving s \<Longrightarrow> foldl (cloneStep destDir) s evs = s"
  by (induction evs) (simp_all add: cloneStep_idle)

text \<open>
  C9 at a clone of a project without any entry: \<^verbatim>\<open>reduce\<close> throws in the handler,
  nothing is started, and the deferred of \<^verbatim>\<open>cloneProject\<close> stays pending whatever
  happens afterwards.
\<close>

theorem clone_empty_tree:
  "thrown (cloneFiles []) = Some TypeError
   \<and> state (cloneDeferred (foldl (cloneStep destDir) (cloneFiles []) evs)) = Pending"
proof -
  have "foldl (cloneStep destDir) (cloneFiles []) evs = cloneFiles []"
    by (rule clone_idle) (simp_all add: cloneFiles_def reduce_def)
  then show ?thesis
    by (simp add: cloneFiles_def reduce_def)
qed

text \<open>
  The sibling paths: an empty batch of an upload or a download is resolved at once
  without a progress event, and so is a clone of a tree that holds directories only,
  once the project id is saved.
\<close>

lemma empty_batch:
  "state (deferred (runBatch projectId f [] [])) = Resolved projectId
   \<and> progress (deferred (runBatch projectId f [] [])) = []"
  by (simp add: runBatch_def startBatch_def resolve_def)

lemma clone_directories_only:
  "state (cloneDeferred (cloneStep destDir
      (cloneFiles [(''/www'', \<lparr>type = Directory, hash = None\<rparr>)]) (Saved True)))
   = Resolved destDir"
  by (simp add: cloneFiles_def reduce_def cloneStep_def resolve_def)

section \<open>Properties of the build orchestrator\<close>

lemmas build_defs = post_def clearInterval_def buildReject_def buildResolve_def buildNotify_def
  pollReject_def pollResolve_def pollNotify_def pollBuild_def tick_def onStatus_def
  onFailResult_def onBuildResult_def onSubmit_def answered_def resolve_def reject_def notify_def
  runJob_def flush_def step_def undecided_def

lemma submitted:
  assumes "\<not> falsy (platform p)"
  shows "polling (step (buildProject projectId p) (SubmitReply (Inr q))) 0"
    and "buildRoot (step (buildProject projectId p) (SubmitReply (Inr q))) =
           ''/project/'' @ projectId @ ''/build''"
    and "queueId (step (buildProject projectId p) (SubmitReply (Inr q))) = q"
  using assms by (simp_all add: buildProject_def polling_def build_defs Let_def)

lemma poll_round:
  assumes "polling s n" and "n < 80" and "\<not> finished r"
  shows "polling (step (step s Tick) (StatusReply (Inr r))) (Suc n)"
    and "buildRoot (step (step s Tick) (StatusReply (Inr r))) = buildRoot s"
    and "queueId (step (step s Tick) (StatusReply (Inr r))) = queueId s"
    and "trace (step (step s Tick) (StatusReply (Inr r))) =
           trace s @ [Post (buildRoot s @ ''/status/'' @ queueId s) None,
                      PollNotify (description r), BuildNotify (description r)]"
  using assms by (simp_all add: polling_def build_defs Let_def remove1_append)

lemma poll_rounds:
  assumes "polling s 0" and "n \<le> 80" and "\<not> finished r"
  shows "polling (run s (concat (replicate n [Tick, StatusReply (Inr r)]))) n
       \<and> buildRoot (run s (concat (replicate n [Tick, StatusReply (Inr r)]))) = buildRoot s
       \<and> queueId (run s (concat (replicate n [Tick, StatusReply (Inr r)]))) = queueId s
       \<and> trace (run s (concat (replicate n [Tick, StatusReply (Inr r)]))) =
           trace s @ concat (replicate n [Post (buildRoot s @ ''/status/'' @ queueId s) None,
                      PollNotify (description r), BuildNotify (description r)])"
  using assms(2)
proof (induction n)
  case 0
  with assms(1) show ?case by (simp add: run_def)
next
  case (Suc n)
  let ?s = "run s (concat (replicate n [Tick, StatusReply (Inr r)]))"
  have rep: "concat (replicate (Suc n) x) = concat (replicate n x) @ x" for x :: "'x list"
  proof -
    have "replicate (Suc n) x = replicate n x @ [x]"
      by (simp add: replicate_append_same)
    then show ?thesis by (simp del: replicate_Suc)
  qed
  have unfold: "run s (concat (replicate (Suc n) [Tick, StatusReply (Inr r)])) =
        step (step ?s Tick) (StatusReply (Inr r))"
    unfolding rep run_def by simp
  from Suc have IH: "polling ?s n" "buildRoot ?s = buildRoot s" "queueId ?s = queueId s"
    "trace ?s = trace s @ concat (replicate n [Post (buildRoot s @ ''/status/'' @ queueId s) None,
                      PollNotify (description r), BuildNotify (description r)])"
    by simp_all
  from Suc.prems have n: "n < 80" by simp
  show ?case
    unfolding unfold
    using poll_round [OF IH(1) n assms(3)] IH(2-4)
    by (simp add: rep del: replicate_Suc)
qed

lemma timeout_tick:
  assumes "polling s 80"
  shows "state (buildDeferred (step s Tick)) = Rejected ''Build timed out''"
    and "\<not> interval (step s Tick)"
    and "trace (step s Tick) =
           trace s @ [ClearInterval, PollReject ''Build timed out'',
                      Post (buildRoot s @ ''/status/'' @ queueId s) None,
                      BuildReject ''Build timed out'']"
  using assms by (simp_all add: polling_def build_defs Let_def)

text \<open>
  C3 at a build whose status replies never report the job finished: the first eighty
  ticks send a status request each, the eighty-first finds the counter at 80, stops the
  timer and rejects with the timeout error, so the orchestration fails with it; and the
  callback of that tick goes on to send one more status request, after the timeout has
  been declared.
\<close>

theorem poll_after_timeout:
  "state (buildDeferred (run
      (buildProject ''P1'' \<lparr>platform = Some ''android'', framework_version = None, purpose = None\<rparr>)
      (SubmitReply (Inr ''Q1'') #
       concat (replicate 80
         [Tick, StatusReply (Inr \<lparr>description = ''Building'', finished = False,
                                  status = ''process''\<rparr>)]) @ [Tick])))
     = Rejected ''Build timed out''
   \<and> trace (run
      (buildProject ''P1'' \<lparr>platform = Some ''android'', framework_version = None, purpose = None\<rparr>)
      (SubmitReply (Inr ''Q1'') #
       concat (replicate 80
         [Tick, StatusReply (Inr \<lparr>description = ''Building'', finished = False,
                                  status = ''process''\<rparr>)]) @ [Tick]))
     = [Post ''/project/P1/build''
          (Some \<lparr>platform = Some ''android'', framework_version = Some ''3.5'',
                 purpose = Some ''debug''\<rparr>),
        SetInterval]
       @ concat (replicate 80
           [Post ''/project/P1/build/status/Q1'' None, PollNotify ''Building'',
            BuildNotify ''Building''])
       @ [ClearInterval, PollReject ''Build timed out'',
          Post ''/project/P1/build/status/Q1'' None, BuildReject ''Build timed out'']"
proof -
  let ?p = "\<lparr>platform = Some ''android'', framework_version = None, purpose = None\<rparr>"
  let ?r = "\<lparr>description = ''Building'', finished = False, status = ''process''\<rparr>"
  define s0 where "s0 = step (buildProject ''P1'' ?p) (SubmitReply (Inr ''Q1''))"
  define s where "s = run s0 (concat (replicate 80 [Tick, StatusReply (Inr ?r)]))"
  have p: "\<not> falsy (platform ?p)" by (simp add: falsy_def)
  have r: "\<not> finished ?r" by simp
  have t0: "trace s0 = [Post ''/project/P1/build''
          (Some \<lparr>platform = Some ''android'', framework_version = Some ''3.5'',
                 purpose = Some ''debug''\<rparr>), SetInterval]"
    by (simp add: s0_def buildProject_def falsy_def build_defs Let_def)
  have s0: "polling s0 0" "buildRoot s0 = ''/project/P1/build''" "queueId s0 = ''Q1''"
    unfolding s0_def using submitted [OF p, of "''P1''" "''Q1''"] by simp_all
  have rounds: "polling s 80 \<and> buildRoot s = buildRoot s0 \<and> queueId s = queueId s0 \<and>
    trace s = trace s0 @ concat (replicate 80
       [Post (buildRoot s0 @ ''/status/'' @ queueId s0) None, PollNotify (description ?r),
        BuildNotify (description ?r)])"
    unfolding s_def by (rule poll_rounds [OF s0(1) order_refl r])
  have whole: "run (buildProject ''P1'' ?p)
      (SubmitReply (Inr ''Q1'') # concat (replicate 80 [Tick, StatusReply (Inr ?r)]) @ [Tick])
      = step s Tick"
    by (simp add: run_def s_def s0_def del: replicate_Suc)
  from rounds have last: "polling s 80" by blast
  have "state (buildDeferred (step s Tick)) = Rejected ''Build timed out''"
    by (rule timeout_tick(1) [OF last])
  moreover have "trace (step s Tick) =
      [Post ''/project/P1/build''
          (Some \<lparr>platform = Some ''android'', framework_version = Some ''3.5'',
                 purpose = Some ''debug''\<rparr>), SetInterval]
       @ concat (replicate 80
           [Post ''/project/P1/build/status/Q1'' None, PollNotify ''Building'',
            BuildNotify ''Building''])
       @ [ClearInterval, PollReject ''Build timed out'',
          Post ''/project/P1/build/status/Q1'' None, BuildReject ''Build timed out'']"
    using timeout_tick(3) [OF last] rounds s0(2,3) t0 by (simp del: replicate_Suc)
  ultimately show ?thesis
    unfolding whole by blast
qed

text \<open>
  C4 at parameters without a platform: the two defaults are filled in and the deferred
  is rejected with the validation error, and the submit request is sent all the same,
  with the defaulted parameters.
\<close>

theorem submit_without_platform:
  "state (buildDeferred
      (buildProject projectId \<lparr>platform = None, framework_version = None, purpose = None\<rparr>))
     = Rejected ''Must specify build platform.''
   \<and> trace (buildProject projectId
        \<lparr>platform = None, framework_version = None, purpose = None\<rparr>)
     = [BuildReject ''Must specify build platform.'',
        Post (''/project/'' @ projectId @ ''/build'')
          (Some \<lparr>platform = None, framework_version = Some ''3.5'',
                 purpose = Some ''debug''\<rparr>)]"
  by (simp add: buildProject_def falsy_def build_defs Let_def)















section \<open>Properties of the local tree scanner\<close>

lemma indexOf_zero: "indexOf s pat = 0 \<longleftrightarrow> prefix pat s"
  by (cases s) (auto simp: Let_def)

lemma hasOwnProperty_keys: "hasOwnProperty files key \<longleftrightarrow> key \<in> fst ` set files"
  by (simp add: hasOwnProperty_def map_of_eq_None_iff)

lemma assign_keys: "fst ` set (assign key obj files) = insert key (fst ` set files)"
proof (cases "hasOwnProperty files key")
  case True
  have "map fst (map (\<lambda>p. if fst p = key then (key, obj) else p) files) = map fst files"
    by (induction files) auto
  then have "fst ` set (map (\<lambda>p. if fst p = key then (key, obj) else p) files) = fst ` set files"
    by (metis set_map)
  with True show ?thesis
    by (auto simp: assign_def hasOwnProperty_keys)
next
  case False
  then show ?thesis by (simp add: assign_def)
qed

lemma fold_assign_keys:
  "fst ` set (fold (\<lambda>p. assign (f p) (g p)) xs acc) = fst ` set acc \<union> f ` set xs"
  by (induction xs arbitrary: acc) (auto simp: assign_keys)

lemma setHash_keys: "map fst (setHash key checksum files) = map fst files"
  by (simp add: setHash_def comp_def)

lemma fold_setHash_keys:
  "map fst (fold (\<lambda>p. case snd p of Inr checksum \<Rightarrow> setHash (fst p) checksum | Inl _ \<Rightarrow> id)
              ps files) = map fst files"
  by (induction ps arbitrary: files) (auto simp: setHash_keys split: sum.splits)

lemma delete_key_keys: "fst ` set (delete_key key files) = fst ` set files - {key}"
  by (auto simp: delete_key_def image_iff)

lemma firstError_none:
  "\<forall>p \<in> set ps. \<forall>e. snd p \<noteq> Inl e \<Longrightarrow> firstError ps = None"
  by (induction ps rule: firstError.induct) auto

text \<open>
  The keys of a scan: when the root does not exist the scan fails with the message that
  says so; when every file can be read the scan gives a tree; and the keys of a tree it
  gives are the names of the listing that do not begin with the string
  \<^verbatim>\<open>node_modules\<close>, each after a slash, without \<^verbatim>\<open>/.monaca/local_properties.json\<close>.
\<close>

lemma scan_keys:
  "(\<not> dirExists \<longrightarrow>
      getLocalProjectFiles projectDir dirExists ls = Inl (projectDir @ '' does not exist''))
   \<and> (dirExists \<and> (\<forall>p \<in> set ls. \<forall>e. snd p \<noteq> Regular (Inl e)) \<longrightarrow>
      (\<exists>files. getLocalProjectFiles projectDir dirExists ls = Inr files))
   \<and> (\<forall>files key. getLocalProjectFiles projectDir dirExists ls = Inr files \<longrightarrow>
        (hasOwnProperty files key \<longleftrightarrow>
           (\<exists>name \<in> fst ` set ls. \<not> prefix ''node_modules'' name \<and> key = CHR ''/'' # name)
           \<and> key \<noteq> ''/.monaca/local_properties.json''))"
proof (intro conjI allI impI)
  assume "\<not> dirExists"
  then show "getLocalProjectFiles projectDir dirExists ls = Inl (projectDir @ '' does not exist'')"
    by (simp add: getLocalProjectFiles_def)
next
  assume ok: "dirExists \<and> (\<forall>p \<in> set ls. \<forall>e. snd p \<noteq> Regular (Inl e))"
  let ?list = "filter (\<lambda>p. indexOf (fst p) ''node_modules'' \<noteq> 0) ls"
  have "firstError (concat (map (\<lambda>p. case snd p of Dir \<Rightarrow> []
                                   | Regular r \<Rightarrow> [(CHR ''/'' # fst p, r)]) ?list)) = None"
    using ok by (intro firstError_none) (auto split: node.splits)
  with ok show "\<exists>files. getLocalProjectFiles projectDir dirExists ls = Inr files"
    by (simp add: getLocalProjectFiles_def Let_def)
next
  fix files key
  assume res: "getLocalProjectFiles projectDir dirExists ls = Inr files"
  let ?list = "filter (\<lambda>p. indexOf (fst p) ''node_modules'' \<noteq> 0) ls"
  let ?files = "fold (\<lambda>p. assign (CHR ''/'' # fst p)
                              \<lparr>type = (case snd p of Dir \<Rightarrow> Directory | Regular _ \<Rightarrow> File),
                               hash = None\<rparr>) ?list []"
  define ps where "ps = concat (map (\<lambda>p. case snd p of Dir \<Rightarrow> []
                                   | Regular r \<Rightarrow> [(CHR ''/'' # fst p, r)]) ?list)"
  from res have
    files: "files = delete_key ''/.monaca/local_properties.json''
       (fold (\<lambda>p. case snd p of Inr checksum \<Rightarrow> setHash (fst p) checksum | Inl _ \<Rightarrow> id)
             ps ?files)"
    unfolding ps_def
    by (auto simp: getLocalProjectFiles_def Let_def split: if_splits option.splits)
  have k1: "fst ` set files = fst ` set ?files - {''/.monaca/local_properties.json''}"
    unfolding files delete_key_keys
    using fold_setHash_keys [of ps ?files] by (metis set_map)
  have k2: "fst ` set ?files = (\<lambda>p. CHR ''/'' # fst p) ` set ?list"
    using fold_assign_keys [of "\<lambda>p. CHR ''/'' # fst p" _ ?list "[]"] by simp
  have k3: "key \<in> (\<lambda>p. CHR ''/'' # fst p) ` set ?list \<longleftrightarrow>
            (\<exists>name \<in> fst ` set ls. \<not> prefix ''node_modules'' name \<and> key = CHR ''/'' # name)"
    by (force simp: indexOf_zero)
  have "hasOwnProperty files key \<longleftrightarrow>
          key \<in> (\<lambda>p. CHR ''/'' # fst p) ` set ?list \<and> key \<noteq> ''/.monaca/local_properties.json''"
    unfolding hasOwnProperty_keys k1 k2 by blast
  then show "hasOwnProperty files key \<longleftrightarrow>
           (\<exists>name \<in> fst ` set ls. \<not> prefix ''node_modules'' name \<and> key = CHR ''/'' # name)
           \<and> key \<noteq> ''/.monaca/local_properties.json''"
    unfolding k3 .
qed

text \<open>
  C7 at a root that holds a file \<^verbatim>\<open>node_modules.txt\<close> beside a directory \<^verbatim>\<open>www\<close>:
  the file does not lie under the directory \<^verbatim>\<open>node_modules\<close>, yet the prefix test on
  the name leaves it out of the tree. A download then takes the remote file of the same
  checksum for a changed one and fetches it again.
\<close>

theorem scan_skips_prefixed_name:
  "getLocalProjectFiles ''/home/u/app'' True
     [(''node_modules.txt'', Regular (Inr ''0a1b2c3d'')), (''www'', Dir)]
   = Inr [(''/www'', \<lparr>type = Directory, hash = None\<rparr>)]
   \<and> \<not> prefix ''node_modules/'' ''node_modules.txt''
   \<and> map fst (filterFiles
         ((\<lambda>_. [])
           (0 := [(''/www'', \<lparr>type = Directory, hash = None\<rparr>)],
            Suc 0 := [(''/node_modules.txt'', \<lparr>type = File, hash = Some ''0a1b2c3d''\<rparr>),
                      (''/www'', \<lparr>type = Directory, hash = None\<rparr>)]))
         (Suc 0) 0 (Suc 0))
     = [''/node_modules.txt'']"
  by (simp add: getLocalProjectFiles_def assign_def setHash_def delete_key_def
        hasOwnProperty_def Let_def filterFiles_def filterStep_def)

end
